theory Spec2Isabelle
  imports Main
begin

section \<open>The implementors shard of \<open>core::marker::Sync\<close> and its registration protocol\<close>

text \<open>
  The source file \<^verbatim>\<open>src/implementors/core/marker/trait.Sync.js\<close> is one immediately
  invoked function:
  \<^verbatim>\<open>
  (function() {var implementors = {};
  implementors["spin"] = [...];implementors["sos_intrusive"] = [...];
      if (window.register_implementors) {
          window.register_implementors(implementors);
      } else {
          window.pending_implementors = implementors;
      }
  })()
  \<close>
  It builds a local object, then either hands it to a function found in the global object
  or stores it in a global slot. The model below keeps that shape: JavaScript values as a
  datatype, the global object as a function from property names to values, exceptions as
  the left summand of a sum.
\<close>

subsection \<open>Values\<close>

text \<open>
  The values the script can meet. Objects are association lists in insertion order (the
  order in which JavaScript enumerates property names that are not array indices), keys
  pairwise distinct when built by \<open>obj_set\<close>. A function value is a reference \<open>JFun n\<close>;
  what calling it does is given by the page. Numbers are integral: \<open>NaN\<close> and fractions
  are left out, they play no role in the script.
\<close>

datatype jsval =
    JUndefined
  | JNull
  | JBool bool
  | JNum int
  | JStr string
  | JArr "jsval list"
  | JObj "(string \<times> jsval) list"
  | JFun nat

type_synonym obj = "(string \<times> jsval) list"

text \<open>The conversion to boolean that \<^verbatim>\<open>if (...)\<close> applies to its condition.\<close>

fun truthy :: "jsval \<Rightarrow> bool" where
  "truthy JUndefined = False"
| "truthy JNull = False"
| "truthy (JBool b) = b"
| "truthy (JNum n) = (n \<noteq> 0)"
| "truthy (JStr s) = (s \<noteq> [])"
| "truthy (JArr vs) = True"
| "truthy (JObj kvs) = True"
| "truthy (JFun f) = True"

text \<open>
  The assignment \<^verbatim>\<open>o[k] = v\<close> on a plain object, for an ordinary property name \<open>k\<close>:
  an existing property keeps its place and takes the new value, a new property goes to the
  end. JavaScript treats two kinds of names otherwise: \<^verbatim>\<open>__proto__\<close> sets the prototype
  and creates no property, and array indices are enumerated before all other names, in
  numeric order. The script under \<^verbatim>\<open>src/\<close> assigns \<^verbatim>\<open>spin\<close> and
  \<^verbatim>\<open>sos_intrusive\<close>, both ordinary; \<open>obj_set\<close> is the assignment for such names, and a
  statement that equates an object with the assignments written in a script carries
  \<open>ordinary_key\<close> as a condition.
\<close>

fun obj_set :: "string \<Rightarrow> jsval \<Rightarrow> obj \<Rightarrow> obj" where
  "obj_set k v [] = [(k, v)]"
| "obj_set k v ((k', v') # kvs) =
     (if k' = k then (k, v) # kvs else (k', v') # obj_set k v kvs)"

text \<open>
  The property names on which \<open>obj_set\<close> is the assignment of JavaScript: every name but
  \<^verbatim>\<open>__proto__\<close> and the names made of digits only (the array indices are among these).
\<close>

definition ordinary_key :: "string \<Rightarrow> bool" where
  "ordinary_key k = (k \<noteq> ''__proto__'' \<and> (k = [] \<or> (\<exists>c \<in> set k. c \<notin> set ''0123456789'')))"

subsection \<open>The page\<close>

text \<open>
  The process-wide state: the properties of \<^verbatim>\<open>window\<close> (a missing property reads as
  \<^verbatim>\<open>undefined\<close>), and whatever state the functions of the hosting page keep for
  themselves. Properties are plain data properties: no getters, no setters.
\<close>

record 'h page =
  globals :: "string \<Rightarrow> jsval"
  host :: 'h

datatype error = TypeError | Thrown jsval

text \<open>What calling function value \<open>n\<close> with one argument does to the page.\<close>

type_synonym 'h call = "nat \<Rightarrow> jsval \<Rightarrow> 'h page \<Rightarrow> error + 'h page"

text \<open>
  A page whose functions all throw their argument, as \<^verbatim>\<open>function (x) { throw x; }\<close>
  does.
\<close>

definition throwing :: "'h call" where
  "throwing f arg p = Inl (Thrown arg)"

subsection \<open>The shard emitter\<close>

text \<open>
  Lines 1 and 2: \<^verbatim>\<open>var implementors = {}\<close>, then one assignment
  \<^verbatim>\<open>implementors[k] = [...]\<close> per package, in the order written.
\<close>

definition build_implementors :: "(string \<times> jsval) list \<Rightarrow> obj" where
  "build_implementors assignments = fold (\<lambda>(k, v) ob. obj_set k v ob) assignments []"

text \<open>
  Lines 4 to 8, the dispatch. A truthy \<^verbatim>\<open>window.register_implementors\<close> is called with the
  object (calling anything but a function raises \<^verbatim>\<open>TypeError\<close>; nothing in the script
  catches what the callee throws; the value it returns is dropped). Otherwise the object is
  assigned to \<^verbatim>\<open>window.pending_implementors\<close>.
\<close>

definition dispatch :: "'h call \<Rightarrow> jsval \<Rightarrow> 'h page \<Rightarrow> error + 'h page" where
  "dispatch call implementors p =
     (if truthy (globals p ''register_implementors'')
      then (case globals p ''register_implementors'' of
              JFun f \<Rightarrow> call f implementors p
            | _ \<Rightarrow> Inl TypeError)
      else Inr (p\<lparr>globals := (globals p)(''pending_implementors'' := implementors)\<rparr>))"

text \<open>The whole script of a shard that makes the given assignments.\<close>

definition emitter :: "'h call \<Rightarrow> (string \<times> jsval) list \<Rightarrow> 'h page \<Rightarrow> error + 'h page" where
  "emitter call assignments p = dispatch call (JObj (build_implementors assignments)) p"

text \<open>The two assignments of \<^verbatim>\<open>trait.Sync.js\<close>, with the strings as they stand in the file.\<close>

definition trait_Sync_assignments :: "(string \<times> jsval) list" where
  "trait_Sync_assignments =
     [(''spin'',
       JArr [JStr ''impl&lt;T&gt; <a class='trait' href='https://doc.rust-lang.org/nightly/core/marker/trait.Sync.html' title='core::marker::Sync'>Sync</a> for <a class='struct' href='spin/struct.Mutex.html' title='spin::Mutex'>Mutex</a>&lt;T&gt;'',
             JStr ''impl&lt;T&gt; <a class='trait' href='https://doc.rust-lang.org/nightly/core/marker/trait.Sync.html' title='core::marker::Sync'>Sync</a> for <a class='struct' href='spin/struct.RwLock.html' title='spin::RwLock'>RwLock</a>&lt;T&gt;'']),
      (''sos_intrusive'',
       JArr [JStr ''impl&lt;T&gt; <a class='trait' href='https://doc.rust-lang.org/nightly/core/marker/trait.Sync.html' title='core::marker::Sync'>Sync</a> for <a class='struct' href='sos_intrusive/rawlink/struct.RawLink.html' title='sos_intrusive::rawlink::RawLink'>RawLink</a>&lt;T&gt; <span class='where'>where T: <a class='trait' href='https://doc.rust-lang.org/nightly/core/marker/trait.Send.html' title='core::marker::Send'>Send</a>, T: <a class='trait' href='https://doc.rust-lang.org/nightly/core/marker/trait.Sync.html' title='core::marker::Sync'>Sync</a></span>''])]"

definition trait_Sync :: "'h call \<Rightarrow> 'h page \<Rightarrow> error + 'h page" where
  "trait_Sync call p = emitter call trait_Sync_assignments p"

text \<open>Several shards, one after the other; an uncaught exception ends the run.\<close>

fun emitters :: "'h call \<Rightarrow> (string \<times> jsval) list list \<Rightarrow> 'h page \<Rightarrow> error + 'h page" where
  "emitters call [] p = Inr p"
| "emitters call (a # as) p =
     (case emitter call a p of Inl e \<Rightarrow> Inl e | Inr p' \<Rightarrow> emitters call as p')"

subsection \<open>The sink\<close>

text \<open>
  Modelled from the spec: the Registry Sink (the page script that defines
  \<^verbatim>\<open>window.register_implementors\<close>) is not among the sources. The spec gives it a
  Registry, "a mapping from identifier to Fragment", in which "re-registration under the
  same identifier overwrites rather than merges"; an initialization entry point that "flips
  state to READY, accepts an initial Fragment/mapping if one is passed, and then drains and
  applies every buffered Fragment in original order", "then discarding" the buffer; and
  "an ongoing registration entry point". The log \<open>applied\<close> is the record of call order
  that the spec's test Sink keeps.
\<close>

record sink =
  registry :: obj
  applied :: "(string \<times> jsval) list"

text \<open>
  Modelled from the spec: the Fragments a value carries, in order. A mapping carries its
  entries; a sequence (the spec's Pending Buffer, "an ordered sequence of Fragments")
  carries what its members carry; anything else carries nothing.
\<close>

fun fragments :: "jsval \<Rightarrow> (string \<times> jsval) list" where
  "fragments (JObj kvs) = kvs"
| "fragments (JArr vs) = concat (map fragments vs)"
| "fragments JUndefined = []"
| "fragments JNull = []"
| "fragments (JBool b) = []"
| "fragments (JNum n) = []"
| "fragments (JStr s) = []"
| "fragments (JFun f) = []"

text \<open>Modelled from the spec: applying one Fragment to the Registry.\<close>

definition sink_apply :: "string \<times> jsval \<Rightarrow> sink \<Rightarrow> sink" where
  "sink_apply kv s =
     s\<lparr>registry := obj_set (fst kv) (snd kv) (registry s), applied := applied s @ [kv]\<rparr>"

text \<open>Modelled from the spec: the registration entry point of the Sink.\<close>

definition sink_register :: "jsval \<Rightarrow> sink page \<Rightarrow> sink page" where
  "sink_register arg p = p\<lparr>host := fold sink_apply (fragments arg) (host p)\<rparr>"

text \<open>Modelled from the spec: the function value that is the Sink's entry point.\<close>

definition sink_entry :: nat where
  "sink_entry = 0"

text \<open>
  Modelled from the spec: the functions of the hosting page. The Sink's entry point is the
  only one; it never throws ("all operations are unconditional and side-effecting only").
\<close>

definition sink_call :: "sink call" where
  "sink_call f arg p = (if f = sink_entry then Inr (sink_register arg p) else Inl TypeError)"

text \<open>
  Modelled from the spec: the initialization of the Sink, run by the hosting page with the
  initial mapping it was passed (\<open>JUndefined\<close> when none was).
\<close>

definition sink_init :: "jsval \<Rightarrow> sink page \<Rightarrow> sink page" where
  "sink_init initial p =
     (let p1 = p\<lparr>globals := (globals p)(''register_implementors'' := JFun sink_entry)\<rparr>;
          p2 = sink_register initial p1;
          p3 = sink_register (globals p2 ''pending_implementors'') p2
      in p3\<lparr>globals := (globals p3)(''pending_implementors'' := JUndefined)\<rparr>)"

text \<open>Modelled from the spec: querying the Registry by identifier.\<close>

definition query :: "sink page \<Rightarrow> string \<Rightarrow> jsval option" where
  "query p k = map_of (registry (host p)) k"

subsection \<open>Sessions\<close>

text \<open>
  Modelled from the spec: a loading session. "Each Shard Emitter and the Sink's initializer
  run to completion, one at a time, in whatever order the host schedules script
  evaluation": a session is a list of scripts, a shard running the emitter of the source
  against the functions of the page, the initializer running \<open>sink_init\<close>.
\<close>

datatype event =
    is_Emit: Emit (assignments: "(string \<times> jsval) list")
  | is_Init: Init jsval

fun step :: "event \<Rightarrow> sink page \<Rightarrow> error + sink page" where
  "step (Emit a) p = emitter sink_call a p"
| "step (Init initial) p = Inr (sink_init initial p)"

fun run :: "event list \<Rightarrow> sink page \<Rightarrow> error + sink page" where
  "run [] p = Inr p"
| "run (e # es) p = (case step e p of Inl x \<Rightarrow> Inl x | Inr p' \<Rightarrow> run es p')"

text \<open>The page before any script has run.\<close>

definition page0 :: "sink page" where
  "page0 = \<lparr>globals = (\<lambda>k. JUndefined), host = \<lparr>registry = [], applied = []\<rparr>\<rparr>"

text \<open>
  Modelled from the spec: the two states of the protocol, read off the page. "State READY
  (Sink entry point present)" is the Sink's entry point being in place; "State
  UNINITIALIZED (Sink entry point absent)" is the test of the dispatch failing.
\<close>

definition ready :: "'h page \<Rightarrow> bool" where
  "ready p = (globals p ''register_implementors'' = JFun sink_entry)"

definition uninitialized :: "'h page \<Rightarrow> bool" where
  "uninitialized p = (\<not> truthy (globals p ''register_implementors''))"

text \<open>The pending slot.\<close>

definition pending :: "'h page \<Rightarrow> jsval" where
  "pending p = globals p ''pending_implementors''"

subsection \<open>Payloads\<close>

text \<open>
  A value with the contents of all its strings removed: what is left is its shape, the
  identifiers included. Two values differ only in payload strings when their shapes agree.
\<close>

fun blank :: "jsval \<Rightarrow> jsval" where
  "blank (JStr s) = JStr []"
| "blank (JArr vs) = JArr (map blank vs)"
| "blank (JObj kvs) = JObj (map (map_prod id blank) kvs)"
| "blank JUndefined = JUndefined"
| "blank JNull = JNull"
| "blank (JBool b) = JBool b"
| "blank (JNum n) = JNum n"
| "blank (JFun f) = JFun f"

definition blank_obj :: "(string \<times> jsval) list \<Rightarrow> (string \<times> jsval) list" where
  "blank_obj kvs = map (map_prod id blank) kvs"

section \<open>Facts about objects and the emitter\<close>

lemma emitter_absent:
  "\<not> truthy (globals p ''register_implementors'') \<Longrightarrow>
   emitter call a p =
     Inr (p\<lparr>globals := (globals p)(''pending_implementors'' := JObj (build_implementors a))\<rparr>)"
  by (simp add: emitter_def dispatch_def)

lemma emitter_fun:
  "globals p ''register_implementors'' = JFun f \<Longrightarrow>
   emitter call a p = call f (JObj (build_implementors a)) p"
  by (simp add: emitter_def dispatch_def)

lemma emitter_not_callable:
  "truthy (globals p ''register_implementors'') \<Longrightarrow>
   \<forall>f. globals p ''register_implementors'' \<noteq> JFun f \<Longrightarrow>
   emitter call a p = Inl TypeError"
  by (cases "globals p ''register_implementors''") (simp_all add: emitter_def dispatch_def)

lemma emitter_uninitialized:
  "uninitialized p \<Longrightarrow>
   emitter call a p =
     Inr (p\<lparr>globals := (globals p)(''pending_implementors'' := JObj (build_implementors a))\<rparr>)"
  by (simp add: uninitialized_def emitter_absent)

lemma emitters_absent:
  "\<not> truthy (globals p ''register_implementors'') \<Longrightarrow>
   emitters call as p =
     Inr (if as = [] then p
          else p\<lparr>globals := (globals p)(''pending_implementors'' := JObj (build_implementors (last as)))\<rparr>)"
proof (induction as arbitrary: p)
  case Nil
  show ?case by simp
next
  case (Cons a as)
  let ?p1 = "p\<lparr>globals := (globals p)(''pending_implementors'' := JObj (build_implementors a))\<rparr>"
  have e: "emitter call a p = Inr ?p1"
    using Cons.prems by (rule emitter_absent)
  have "\<not> truthy (globals ?p1 ''register_implementors'')"
    using Cons.prems by simp
  from Cons.IH [OF this] e show ?case by simp
qed

lemma obj_set_keys: "fst ` set (obj_set k v r) = insert k (fst ` set r)"
  by (induction k v r rule: obj_set.induct) (simp_all add: insert_commute)

lemma obj_set_distinct: "distinct (map fst r) \<Longrightarrow> distinct (map fst (obj_set k v r))"
  by (induction r) (auto simp: obj_set_keys)

lemma obj_set_new: "k \<notin> fst ` set r \<Longrightarrow> obj_set k v r = r @ [(k, v)]"
  by (induction r) auto

lemma map_of_obj_set: "map_of (obj_set k v r) = (map_of r)(k \<mapsto> v)"
  by (induction r) (auto simp: fun_upd_twist)

lemma fold_obj_set_distinct:
  "distinct (map fst (r @ xs)) \<Longrightarrow> fold (\<lambda>kv. obj_set (fst kv) (snd kv)) xs r = r @ xs"
proof (induction xs arbitrary: r)
  case Nil
  show ?case by simp
next
  case (Cons x xs)
  have "fst x \<notin> fst ` set r" using Cons.prems by auto
  then have s: "obj_set (fst x) (snd x) r = r @ [x]" by (simp add: obj_set_new)
  have "distinct (map fst ((r @ [x]) @ xs))" using Cons.prems by simp
  from Cons.IH [OF this] s show ?case by simp
qed

lemma build_implementors_fold:
  "build_implementors a = fold (\<lambda>kv. obj_set (fst kv) (snd kv)) a []"
  by (simp add: build_implementors_def case_prod_unfold)

lemma build_implementors_distinct_keys: "distinct (map fst a) \<Longrightarrow> build_implementors a = a"
  using fold_obj_set_distinct [of "[]" a] by (simp add: build_implementors_fold)

lemma fold_obj_set_keys_distinct:
  "distinct (map fst r) \<Longrightarrow> distinct (map fst (fold (\<lambda>kv. obj_set (fst kv) (snd kv)) xs r))"
  by (induction xs arbitrary: r) (simp_all add: obj_set_distinct)

lemma build_implementors_keys: "distinct (map fst (build_implementors a))"
  by (simp add: build_implementors_fold fold_obj_set_keys_distinct)

lemma map_of_fold_obj_set:
  "map_of (fold (\<lambda>kv. obj_set (fst kv) (snd kv)) xs r) = map_of r ++ map_of (rev xs)"
  by (induction xs arbitrary: r) (simp_all add: map_of_obj_set map_add_def fun_eq_iff split: option.splits)

lemma distinct_concat_member:
  "distinct (map fst (concat xs)) \<Longrightarrow> a \<in> set xs \<Longrightarrow> distinct (map fst a)"
  by (induction xs) auto

lemma build_implementors_all:
  "distinct (map fst (concat xs)) \<Longrightarrow> map build_implementors xs = xs"
  by (rule map_idI) (simp add: distinct_concat_member build_implementors_distinct_keys)

lemma distinct_keys_suffix: "distinct (map fst (xs @ ys)) \<Longrightarrow> distinct (map fst ys)"
  by simp

lemma distinct_concat_last:
  assumes "distinct (map fst (concat (pre @ post)))" and "pre \<noteq> []"
  shows "distinct (map fst (last pre @ concat post))"
proof -
  have "pre = butlast pre @ [last pre]"
    using assms(2) by simp
  then have "concat (pre @ post) = concat (butlast pre) @ (last pre @ concat post)"
    by (metis append_Nil2 append_assoc concat.simps(1) concat.simps(2) concat_append)
  with assms(1) show ?thesis
    using distinct_keys_suffix by metis
qed

lemma map_of_rev_distinct:
  "distinct (map fst m) \<Longrightarrow> (k, v) \<in> set m \<Longrightarrow> map_of (rev m) k = Some v"
  by (simp add: map_of_eq_Some_iff [of "rev m"] rev_map [symmetric])

lemma one_entry:
  "distinct (map fst r) \<Longrightarrow> map_of r k = Some v \<Longrightarrow> length (filter (\<lambda>kv. fst kv = k) r) = 1"
proof (induction r)
  case Nil
  then show ?case by simp
next
  case (Cons x r)
  show ?case
  proof (cases "fst x = k")
    case True
    with Cons.prems(1) have "k \<notin> fst ` set r"
      by simp
    then have "\<forall>kv \<in> set r. fst kv \<noteq> k"
      by (metis imageI)
    then have "filter (\<lambda>kv. fst kv = k) r = []"
      by (simp add: filter_empty_conv)
    with True show ?thesis by simp
  next
    case False
    with Cons show ?thesis by (cases x) auto
  qed
qed

lemma blank_obj_obj_set: "blank_obj (obj_set k v r) = obj_set k (blank v) (blank_obj r)"
  by (induction k v r rule: obj_set.induct) (simp_all add: blank_obj_def)

lemma blank_obj_fold:
  "blank_obj (fold (\<lambda>kv. obj_set (fst kv) (snd kv)) xs r) =
     fold (\<lambda>kv. obj_set (fst kv) (snd kv)) (blank_obj xs) (blank_obj r)"
proof (induction xs arbitrary: r)
  case Nil
  show ?case by (simp add: blank_obj_def)
next
  case (Cons x xs)
  have "blank_obj (x # xs) = (fst x, blank (snd x)) # blank_obj xs"
    by (cases x) (simp add: blank_obj_def)
  with Cons.IH [of "obj_set (fst x) (snd x) r"] show ?case
    by (simp add: blank_obj_obj_set)
qed

lemma blank_obj_build: "blank_obj (build_implementors a) = build_implementors (blank_obj a)"
  using blank_obj_fold [of a "[]"] by (simp add: build_implementors_fold blank_obj_def)

lemma blank_obj_append: "blank_obj (xs @ ys) = blank_obj xs @ blank_obj ys"
  by (simp add: blank_obj_def)

lemma blank_JObj: "blank (JObj kvs) = JObj (blank_obj kvs)"
  by (simp add: blank_obj_def)

section \<open>Facts about the sink and about sessions\<close>

lemma globals_sink_register: "globals (sink_register v p) = globals p"
  by (simp add: sink_register_def)

lemma host_sink_register: "host (sink_register v p) = fold sink_apply (fragments v) (host p)"
  by (simp add: sink_register_def)

lemma emitter_ready:
  "globals p ''register_implementors'' = JFun sink_entry \<Longrightarrow>
   emitter sink_call a p = Inr (sink_register (JObj (build_implementors a)) p)"
  by (simp add: emitter_fun sink_call_def)

lemma registry_fold:
  "registry (fold sink_apply xs s) = fold (\<lambda>kv. obj_set (fst kv) (snd kv)) xs (registry s)"
  by (induction xs arbitrary: s) (simp_all add: sink_apply_def)

lemma applied_fold: "applied (fold sink_apply xs s) = applied s @ xs"
  by (induction xs arbitrary: s) (simp_all add: sink_apply_def)

lemma globals_sink_init:
  "globals (sink_init i p) =
     (globals p)(''register_implementors'' := JFun sink_entry, ''pending_implementors'' := JUndefined)"
  by (simp add: sink_init_def Let_def globals_sink_register)

lemma host_sink_init:
  "host (sink_init i p) =
     fold sink_apply (fragments i @ fragments (globals p ''pending_implementors'')) (host p)"
  by (simp add: sink_init_def Let_def globals_sink_register host_sink_register)

lemma ready_sink_init: "ready (sink_init i p)"
  by (simp add: ready_def globals_sink_init)

lemma run_append:
  "run (xs @ ys) p = (case run xs p of Inl e \<Rightarrow> Inl e | Inr q \<Rightarrow> run ys q)"
  by (induction xs arbitrary: p) (simp_all split: sum.splits)

lemma run_Emit: "run (map Emit as) p = emitters sink_call as p"
  by (induction as arbitrary: p) (simp_all split: sum.splits)

lemma emitters_ready:
  "ready p \<Longrightarrow>
   emitters sink_call as p =
     Inr (p\<lparr>host := fold sink_apply (concat (map build_implementors as)) (host p)\<rparr>)"
proof (induction as arbitrary: p)
  case Nil
  show ?case by simp
next
  case (Cons a as)
  let ?p1 = "sink_register (JObj (build_implementors a)) p"
  have e: "emitter sink_call a p = Inr ?p1"
    using Cons.prems by (simp add: ready_def emitter_ready)
  have "ready ?p1"
    using Cons.prems by (simp add: ready_def globals_sink_register)
  from Cons.IH [OF this] e show ?case
    by (simp add: sink_register_def)
qed

lemma step_ready: "ready p \<Longrightarrow> \<exists>q. step e p = Inr q \<and> ready q"
  by (cases e) (simp_all add: emitter_ready ready_def globals_sink_register globals_sink_init)

lemma run_ready: "ready p \<Longrightarrow> \<exists>q. run es p = Inr q \<and> ready q"
proof (induction es arbitrary: p)
  case Nil
  then show ?case by simp
next
  case (Cons e es)
  from step_ready [OF Cons.prems] obtain p1 where s: "step e p = Inr p1" and r: "ready p1"
    by blast
  from Cons.IH [OF r] s show ?case by simp
qed

lemma uninitialized_page0: "uninitialized page0"
  by (simp add: uninitialized_def page0_def)

lemma registry_page0: "registry (host page0) = []"
  by (simp add: page0_def)

lemma applied_page0: "applied (host page0) = []"
  by (simp add: page0_def)

lemma pending_page0: "pending page0 = JUndefined"
  by (simp add: page0_def pending_def)

lemma session_shape:
  assumes u: "uninitialized p"
  shows "run (map Emit pre @ Init JUndefined # map Emit post) p =
           Inr (sink_init JUndefined p
                  \<lparr>host := fold sink_apply
                      ((if pre = [] then fragments (pending p) else build_implementors (last pre))
                        @ concat (map build_implementors post)) (host p)\<rparr>)"
proof -
  let ?slot = "''pending_implementors''"
  let ?p1 = "if pre = [] then p
             else p\<lparr>globals := (globals p)(?slot := JObj (build_implementors (last pre)))\<rparr>"
  have a: "\<not> truthy (globals p ''register_implementors'')"
    using u by (simp add: uninitialized_def)
  have 1: "run (map Emit pre) p = Inr ?p1"
    by (simp only: run_Emit emitters_absent [OF a])
  have 2: "host (sink_init JUndefined ?p1) =
             fold sink_apply (if pre = [] then fragments (pending p) else build_implementors (last pre))
               (host p)"
    by (simp add: host_sink_init pending_def)
  have 3: "run (map Emit post) (sink_init JUndefined ?p1) =
             Inr (sink_init JUndefined ?p1
                   \<lparr>host := fold sink_apply (concat (map build_implementors post))
                               (host (sink_init JUndefined ?p1))\<rparr>)"
    by (simp only: run_Emit emitters_ready [OF ready_sink_init])
  have 4: "sink_init JUndefined ?p1\<lparr>host := h\<rparr> = sink_init JUndefined p\<lparr>host := h\<rparr>" for h
    by (simp add: sink_init_def Let_def sink_register_def)
  show ?thesis
    by (simp add: run_append 1 3 2 4)
qed

lemma query_after_fold:
  assumes "distinct (map fst m)" and "(k, v) \<in> set m"
  shows "map_of (registry (fold sink_apply m h)) k = Some v"
  using map_of_rev_distinct [OF assms]
  by (simp add: registry_fold map_of_fold_obj_set)

lemma registry_fold_distinct:
  "distinct (map fst (registry h)) \<Longrightarrow> distinct (map fst (registry (fold sink_apply m h)))"
  by (simp add: registry_fold fold_obj_set_keys_distinct)

lemma run_ready_distinct:
  assumes "ready p" and "distinct (map fst (registry (host p)))"
  shows "\<exists>q. run es p = Inr q \<and> ready q \<and> distinct (map fst (registry (host q)))"
  using assms
proof (induction es arbitrary: p)
  case Nil
  then show ?case by simp
next
  case (Cons e es)
  have "\<exists>p1. step e p = Inr p1 \<and> ready p1 \<and> distinct (map fst (registry (host p1)))"
  proof (cases e)
    case (Emit a)
    with Cons.prems show ?thesis
      by (simp add: emitter_ready ready_def globals_sink_register host_sink_register
          registry_fold_distinct)
  next
    case (Init i)
    with Cons.prems show ?thesis
      by (simp add: ready_sink_init host_sink_init registry_fold_distinct)
  qed
  then obtain p1 where "step e p = Inr p1" "ready p1" "distinct (map fst (registry (host p1)))"
    by blast
  with Cons.IH [of p1] show ?case by simp
qed

lemma run_state:
  assumes "uninitialized p" and "distinct (map fst (registry (host p)))"
  shows "\<exists>q. run es p = Inr q \<and> (if \<exists>e \<in> set es. is_Init e then ready q else uninitialized q) \<and>
             distinct (map fst (registry (host q)))"
  using assms
proof (induction es arbitrary: p)
  case Nil
  then show ?case by simp
next
  case (Cons e es)
  show ?case
  proof (cases e)
    case (Emit a)
    let ?p1 = "p\<lparr>globals := (globals p)(''pending_implementors'' := JObj (build_implementors a))\<rparr>"
    have s: "step e p = Inr ?p1"
      using Emit Cons.prems(1) by (simp add: emitter_uninitialized)
    have "uninitialized ?p1" "distinct (map fst (registry (host ?p1)))"
      using Cons.prems by (simp_all add: uninitialized_def)
    from Cons.IH [OF this] s Emit show ?thesis by simp
  next
    case (Init i)
    have s: "step e p = Inr (sink_init i p)"
      using Init by simp
    have "ready (sink_init i p)" "distinct (map fst (registry (host (sink_init i p))))"
      using Cons.prems by (simp_all add: ready_sink_init host_sink_init registry_fold_distinct)
    from run_ready_distinct [OF this, of es] s Init show ?thesis by auto
  qed
qed

lemma run_ready_pending:
  assumes "ready p" and "pending p = JUndefined"
  shows "\<exists>q. run es p = Inr q \<and> ready q \<and> pending q = JUndefined"
  using assms
proof (induction es arbitrary: p)
  case Nil
  then show ?case by simp
next
  case (Cons e es)
  have "\<exists>p1. step e p = Inr p1 \<and> ready p1 \<and> pending p1 = JUndefined"
  proof (cases e)
    case (Emit a)
    with Cons.prems show ?thesis
      by (simp add: emitter_ready ready_def pending_def globals_sink_register)
  next
    case (Init i)
    then show ?thesis
      by (simp add: ready_def pending_def globals_sink_init)
  qed
  then obtain p1 where "step e p = Inr p1" "ready p1" "pending p1 = JUndefined"
    by blast
  with Cons.IH [of p1] show ?case by simp
qed

lemma run_pending:
  assumes "uninitialized p"
  shows "\<exists>q. run es p = Inr q \<and>
             pending q = (if \<exists>e \<in> set es. is_Init e then JUndefined
                          else if es = [] then pending p
                          else JObj (build_implementors (assignments (last es))))"
  using assms
proof (induction es arbitrary: p)
  case Nil
  then show ?case by simp
next
  case (Cons e es)
  show ?case
  proof (cases e)
    case (Emit a)
    let ?p1 = "p\<lparr>globals := (globals p)(''pending_implementors'' := JObj (build_implementors a))\<rparr>"
    have s: "step e p = Inr ?p1"
      using Emit Cons.prems by (simp add: emitter_uninitialized)
    have "uninitialized ?p1"
      using Cons.prems by (simp add: uninitialized_def)
    from Cons.IH [OF this] s Emit show ?thesis by (auto simp: pending_def)
  next
    case (Init i)
    have s: "step e p = Inr (sink_init i p)"
      using Init by simp
    have "ready (sink_init i p)" "pending (sink_init i p) = JUndefined"
      by (simp_all add: ready_def pending_def globals_sink_init)
    from run_ready_pending [OF this, of es] s Init show ?thesis by auto
  qed
qed

section \<open>The claims\<close>

subsection \<open>Sessions in any order\<close>

text \<open>
  Claim C1, as stated, says that whatever the order of N registrations and one
  initialization, the final Registry holds all N Fragments. Take the scenario of the spec:
  \<open>pkgA\<close> and \<open>pkgB\<close> are registered by two shards before the Sink is initialized,
  \<open>pkgC\<close> afterwards. The second shard assigns to the slot that held the mapping of the
  first, so the Sink finds \<open>pkgB\<close> alone: the final Registry holds \<open>pkgB\<close> and
  \<open>pkgC\<close>, and a query for \<open>pkgA\<close> finds nothing.
\<close>

theorem C1_all_fragments_counterexample:
  "\<not> isl (run [Emit [(''pkgA'', JArr [JStr ''implA1''])], Emit [(''pkgB'', JArr [JStr ''implB1''])],
                Init JUndefined, Emit [(''pkgC'', JArr [JStr ''implC1''])]] page0) \<and>
   registry (host (projr
     (run [Emit [(''pkgA'', JArr [JStr ''implA1''])], Emit [(''pkgB'', JArr [JStr ''implB1''])],
           Init JUndefined, Emit [(''pkgC'', JArr [JStr ''implC1''])]] page0)))
     = [(''pkgB'', JArr [JStr ''implB1'']), (''pkgC'', JArr [JStr ''implC1''])] \<and>
   query (projr
     (run [Emit [(''pkgA'', JArr [JStr ''implA1''])], Emit [(''pkgB'', JArr [JStr ''implB1''])],
           Init JUndefined, Emit [(''pkgC'', JArr [JStr ''implC1''])]] page0)) ''pkgA'' = None"
  by (simp add: emitter_def dispatch_def build_implementors_def page0_def sink_init_def
      sink_register_def sink_call_def sink_apply_def query_def Let_def)

text \<open>
  Claim C1, amended: for every number of registrations and every place of the single
  initialization among them (\<open>pre\<close> are the shards run before it, \<open>post\<close> those run
  after it), all identifiers being distinct and ordinary property names, the session
  completes and the final Registry holds exactly the Fragments of the last shard run before
  the initialization, if there is one, and of every shard run after it, in that order. It
  holds all N Fragments whenever at most one shard runs before the initialization.
\<close>

theorem C1_final_registry:
  assumes "distinct (map fst (concat (pre @ post)))"
    and "list_all ordinary_key (map fst (concat (pre @ post)))"
  shows "\<exists>q. run (map Emit pre @ Init JUndefined # map Emit post) page0 = Inr q \<and>
             registry (host q) = concat ((if pre = [] then [] else [last pre]) @ post) \<and>
             (length pre \<le> 1 \<longrightarrow> registry (host q) = concat (pre @ post))"
proof -
  define kept where "kept = (if pre = [] then [] else last pre) @ concat post"
  have b: "map build_implementors post = post"
    using assms(1) by (intro build_implementors_all) simp
  have l: "build_implementors (last pre) = last pre" if "pre \<noteq> []"
  proof (rule build_implementors_distinct_keys)
    from that have "last pre \<in> set (pre @ post)" by simp
    with assms(1) show "distinct (map fst (last pre))" by (rule distinct_concat_member)
  qed
  have "distinct (map fst kept)"
    using assms(1) distinct_concat_last [of pre post] by (cases "pre = []") (simp_all add: kept_def)
  then have "distinct (map fst ([] @ kept))" by simp
  then have r: "fold (\<lambda>kv. obj_set (fst kv) (snd kv)) kept [] = [] @ kept"
    by (rule fold_obj_set_distinct)
  have k: "(if pre = [] then fragments (pending page0) else build_implementors (last pre))
             @ concat (map build_implementors post) = kept"
    by (simp add: pending_page0 b l kept_def)
  have "run (map Emit pre @ Init JUndefined # map Emit post) page0 =
          Inr (sink_init JUndefined page0\<lparr>host := fold sink_apply kept (host page0)\<rparr>)"
    using session_shape [OF uninitialized_page0, of pre post] by (simp only: k)
  moreover have "registry (host (sink_init JUndefined page0\<lparr>host := fold sink_apply kept (host page0)\<rparr>))
                   = kept"
    by (simp add: registry_fold registry_page0 r)
  moreover have "kept = concat ((if pre = [] then [] else [last pre]) @ post)"
    by (simp add: kept_def)
  moreover have "length pre \<le> 1 \<longrightarrow> kept = concat (pre @ post)"
    by (cases pre) (simp_all add: kept_def)
  ultimately show ?thesis
    by metis
qed

text \<open>
  Claim C1 for \<open>pkgA\<close> registered before the initialization and the shard of
  \<^verbatim>\<open>trait.Sync.js\<close> run after it.
\<close>

theorem C1_final_registry_witness:
  "distinct (map fst (concat ([[(''pkgA'', JArr [JStr ''implA1''])]] @ [trait_Sync_assignments]))) \<and>
   list_all ordinary_key
     (map fst (concat ([[(''pkgA'', JArr [JStr ''implA1''])]] @ [trait_Sync_assignments]))) \<and>
   (\<exists>q. run [Emit [(''pkgA'', JArr [JStr ''implA1''])], Init JUndefined, Emit trait_Sync_assignments]
           page0 = Inr q \<and>
        registry (host q) = (''pkgA'', JArr [JStr ''implA1'']) # trait_Sync_assignments)"
proof -
  have d: "distinct (map fst (concat ([[(''pkgA'', JArr [JStr ''implA1''])]] @ [trait_Sync_assignments])))"
    by (simp add: trait_Sync_assignments_def)
  have o: "list_all ordinary_key
     (map fst (concat ([[(''pkgA'', JArr [JStr ''implA1''])]] @ [trait_Sync_assignments])))"
    by (simp add: trait_Sync_assignments_def ordinary_key_def)
  from C1_final_registry [OF d o] d o show ?thesis by simp
qed

subsection \<open>Registration while the entry point is absent\<close>

text \<open>
  Claim C2, as stated, says that a registration made while the entry point is absent is
  appended to a buffer in which the mappings of earlier emitters are retained. The script
  assigns to the slot instead. After a first shard has stored \<open>pkgA\<close>, a second shard
  storing \<open>pkgB\<close> leaves the slot holding \<open>pkgB\<close> alone: the Fragment of the first
  shard is gone.
\<close>

theorem C2_retained_counterexample:
  "\<not> isl (emitters sink_call [[(''pkgA'', JArr [JStr ''implA1''])]] page0) \<and>
   fragments (pending (projr (emitters sink_call [[(''pkgA'', JArr [JStr ''implA1''])]] page0)))
     = [(''pkgA'', JArr [JStr ''implA1''])] \<and>
   \<not> isl (emitters sink_call
           [[(''pkgA'', JArr [JStr ''implA1''])], [(''pkgB'', JArr [JStr ''implB1''])]] page0) \<and>
   fragments (pending (projr (emitters sink_call
           [[(''pkgA'', JArr [JStr ''implA1''])], [(''pkgB'', JArr [JStr ''implB1''])]] page0)))
     = [(''pkgB'', JArr [JStr ''implB1''])]"
  by (simp add: emitter_def dispatch_def build_implementors_def page0_def pending_def)

text \<open>
  Claim C2, amended: a registration made while the entry point is absent completes, leaves
  the entry point absent, and stores the emitter's mapping in the pending slot, which from
  then on holds that mapping and nothing else: the Fragments found there are exactly the
  entries of the new mapping, whatever the slot held before (nothing, on first use).
\<close>

theorem C2_absent_stores_mapping:
  assumes "uninitialized p"
  shows "\<exists>q. emitter call a p = Inr q \<and> uninitialized q \<and>
             pending q = JObj (build_implementors a) \<and>
             fragments (pending q) = build_implementors a"
  using assms by (simp add: emitter_uninitialized pending_def uninitialized_def)

text \<open>
  Claim C2 on the fresh page, for a shard that registers \<open>pkgA\<close>.
\<close>

theorem C2_absent_stores_mapping_witness:
  "uninitialized page0 \<and>
   (\<exists>q. emitter sink_call [(''pkgA'', JArr [JStr ''implA1''])] page0 = Inr q \<and> uninitialized q \<and>
        pending q = JObj [(''pkgA'', JArr [JStr ''implA1''])] \<and>
        fragments (pending q) = [(''pkgA'', JArr [JStr ''implA1''])])"
proof -
  have u: "uninitialized page0" by (simp add: uninitialized_def page0_def)
  have b: "build_implementors [(''pkgA'', JArr [JStr ''implA1''])] = [(''pkgA'', JArr [JStr ''implA1''])]"
    by (simp add: build_implementors_def)
  from C2_absent_stores_mapping [OF u, of sink_call "[(''pkgA'', JArr [JStr ''implA1''])]"] u b
  show ?thesis by simp
qed

text \<open>
  Claim C3, as stated, says that of two Fragments registered while the Sink is
  uninitialized, the one buffered first is applied first and both end up in the Registry.
  With \<open>pkgA\<close> and \<open>pkgB\<close> registered by two shards and the Sink initialized after
  them, the Sink applies \<open>pkgB\<close> and nothing else: \<open>pkgA\<close> is neither applied nor
  present.
\<close>

theorem C3_drain_order_counterexample:
  "\<not> isl (run [Emit [(''pkgA'', JArr [JStr ''implA1''])], Emit [(''pkgB'', JArr [JStr ''implB1''])],
                Init JUndefined] page0) \<and>
   applied (host (projr
     (run [Emit [(''pkgA'', JArr [JStr ''implA1''])], Emit [(''pkgB'', JArr [JStr ''implB1''])],
           Init JUndefined] page0)))
     = [(''pkgB'', JArr [JStr ''implB1''])] \<and>
   query (projr
     (run [Emit [(''pkgA'', JArr [JStr ''implA1''])], Emit [(''pkgB'', JArr [JStr ''implB1''])],
           Init JUndefined] page0)) ''pkgA'' = None"
  by (simp add: emitter_def dispatch_def build_implementors_def page0_def sink_init_def
      sink_register_def sink_call_def sink_apply_def query_def Let_def)

text \<open>
  Claim C3, amended: the drain preserves the order of the Fragments of one mapping. When
  shards run while the Sink is uninitialized and the Sink is then initialized, the
  Fragments of the last of those shards are applied in the order in which its mapping holds
  them, after whatever had been applied before, and each of them is present in the
  Registry afterwards; the page is then READY and the pending slot is empty.
\<close>

theorem C3_last_mapping_drained_in_order:
  assumes "uninitialized p"
  shows "\<exists>q. run (map Emit (pre @ [a]) @ [Init JUndefined]) p = Inr q \<and> ready q \<and>
             pending q = JUndefined \<and>
             applied (host q) = applied (host p) @ build_implementors a \<and>
             (\<forall>kv \<in> set (build_implementors a). query q (fst kv) = Some (snd kv))"
proof -
  let ?q = "sink_init JUndefined p\<lparr>host := fold sink_apply (build_implementors a) (host p)\<rparr>"
  have "run (map Emit (pre @ [a]) @ Init JUndefined # map Emit []) p = Inr ?q"
    by (simp only: session_shape [OF assms]) simp
  then have 1: "run (map Emit (pre @ [a]) @ [Init JUndefined]) p = Inr ?q"
    by simp
  have 2: "ready ?q" "pending ?q = JUndefined"
    by (simp_all add: ready_def pending_def globals_sink_init)
  have 3: "applied (host ?q) = applied (host p) @ build_implementors a"
    by (simp add: applied_fold)
  have 4: "query ?q (fst kv) = Some (snd kv)" if "kv \<in> set (build_implementors a)" for kv
    using query_after_fold [OF build_implementors_keys, of "fst kv" "snd kv" a "host p"] that
    by (simp add: query_def)
  from 1 2 3 4 show ?thesis by blast
qed

text \<open>
  Claim C3 for the shard of \<^verbatim>\<open>trait.Sync.js\<close>, run on the fresh page after a shard
  registering \<open>pkgA\<close>: \<open>spin\<close> is applied before \<open>sos_intrusive\<close>, and both are
  found in the Registry.
\<close>

theorem C3_last_mapping_drained_in_order_witness:
  "uninitialized page0 \<and>
   (\<exists>q. run [Emit [(''pkgA'', JArr [JStr ''implA1''])], Emit trait_Sync_assignments, Init JUndefined] page0
          = Inr q \<and>
        map fst (applied (host q)) = [''spin'', ''sos_intrusive''] \<and>
        query q ''spin'' = Some (snd (trait_Sync_assignments ! 0)) \<and>
        query q ''sos_intrusive'' = Some (snd (trait_Sync_assignments ! 1)))"
proof -
  have b: "build_implementors trait_Sync_assignments = trait_Sync_assignments"
    by (rule build_implementors_distinct_keys) (simp add: trait_Sync_assignments_def)
  have k: "map fst trait_Sync_assignments = [''spin'', ''sos_intrusive'']"
    by (simp add: trait_Sync_assignments_def)
  have m: "trait_Sync_assignments ! 0 \<in> set trait_Sync_assignments"
    "trait_Sync_assignments ! 1 \<in> set trait_Sync_assignments"
    "fst (trait_Sync_assignments ! 0) = ''spin''" "fst (trait_Sync_assignments ! 1) = ''sos_intrusive''"
    by (simp_all add: trait_Sync_assignments_def)
  from C3_last_mapping_drained_in_order
         [OF uninitialized_page0, of "[[(''pkgA'', JArr [JStr ''implA1''])]]" trait_Sync_assignments]
  obtain q where
    "run (map Emit ([[(''pkgA'', JArr [JStr ''implA1''])]] @ [trait_Sync_assignments]) @ [Init JUndefined]) page0 = Inr q"
    "applied (host q) = applied (host page0) @ build_implementors trait_Sync_assignments"
    "\<forall>kv \<in> set (build_implementors trait_Sync_assignments). query q (fst kv) = Some (snd kv)"
    by blast
  with b k m uninitialized_page0 show ?thesis
    by (auto simp: applied_page0)
qed

text \<open>
  Claim C4: the pending slot holds one emitter mapping at most, that of the most recent
  emitter run while the entry point was absent. After any number of shards run from a page
  without entry point, the slot holds the mapping of the last one (and what it held at the
  start when none ran); the outcome of one or more shards is the same whatever value \<open>v\<close>
  the slot held at the start, so nothing of its previous contents survives. And in every
  state that a session reaches from the fresh page, the slot is empty (no shard has run yet,
  or the Sink has taken over) or holds the mapping of the shard that ran last.
\<close>

theorem C4_slot_holds_last_mapping:
  "(uninitialized p \<longrightarrow>
      (\<exists>q. emitters call as p = Inr q \<and> uninitialized q \<and>
           pending q = (if as = [] then pending p else JObj (build_implementors (last as))) \<and>
           emitters call as (p\<lparr>globals := (globals p)(''pending_implementors'' := v)\<rparr>) =
             (if as = [] then Inr (p\<lparr>globals := (globals p)(''pending_implementors'' := v)\<rparr>)
              else Inr q))) \<and>
   (\<exists>q. run es page0 = Inr q \<and>
        pending q = (if (\<exists>e \<in> set es. is_Init e) \<or> es = [] then JUndefined
                     else JObj (build_implementors (assignments (last es)))))"
proof
  show "uninitialized p \<longrightarrow>
      (\<exists>q. emitters call as p = Inr q \<and> uninitialized q \<and>
           pending q = (if as = [] then pending p else JObj (build_implementors (last as))) \<and>
           emitters call as (p\<lparr>globals := (globals p)(''pending_implementors'' := v)\<rparr>) =
             (if as = [] then Inr (p\<lparr>globals := (globals p)(''pending_implementors'' := v)\<rparr>)
              else Inr q))"
  proof
    assume u: "uninitialized p"
    let ?p' = "p\<lparr>globals := (globals p)(''pending_implementors'' := v)\<rparr>"
    have a: "\<not> truthy (globals p ''register_implementors'')"
      using u by (simp add: uninitialized_def)
    then have a': "\<not> truthy (globals ?p' ''register_implementors'')" by simp
    show "\<exists>q. emitters call as p = Inr q \<and> uninitialized q \<and>
           pending q = (if as = [] then pending p else JObj (build_implementors (last as))) \<and>
           emitters call as ?p' = (if as = [] then Inr ?p' else Inr q)"
      by (simp add: emitters_absent [OF a] emitters_absent [OF a'] pending_def uninitialized_def a)
  qed
next
  from run_pending [OF uninitialized_page0, of es]
  show "\<exists>q. run es page0 = Inr q \<and>
        pending q = (if (\<exists>e \<in> set es. is_Init e) \<or> es = [] then JUndefined
                     else JObj (build_implementors (assignments (last es))))"
    by (auto simp: pending_page0)
qed

text \<open>
  Claim C4 on the fresh page: a shard registering \<open>pkgA\<close>, then the shard of
  \<^verbatim>\<open>trait.Sync.js\<close>.
\<close>

theorem C4_slot_holds_last_mapping_witness:
  "uninitialized page0 \<and>
   (\<exists>q. emitters sink_call [[(''pkgA'', JArr [JStr ''implA1''])], trait_Sync_assignments] page0 = Inr q \<and>
        pending q = JObj (build_implementors trait_Sync_assignments))"
proof -
  have u: "uninitialized page0" by (rule uninitialized_page0)
  from C4_slot_holds_last_mapping
         [of page0 sink_call "[[(''pkgA'', JArr [JStr ''implA1''])], trait_Sync_assignments]"] u
  show ?thesis by auto
qed

subsection \<open>Registration while the entry point exists\<close>

text \<open>
  Claim C5: when \<^verbatim>\<open>window.register_implementors\<close> is a function, the whole effect of the
  script is one call of that function, on the page as the script found it, with the
  emitter's complete mapping as the argument; the script itself writes nothing, the
  resulting page is the one the function returns. With the Sink's entry point in place,
  the pending slot is left as it was and the Sink's log grows by the Fragments of the
  mapping, once each.
\<close>

theorem C5_ready_calls_entry_point:
  "(globals p ''register_implementors'' = JFun f \<longrightarrow>
      emitter call a p = call f (JObj (build_implementors a)) p) \<and>
   (ready s \<longrightarrow>
      (\<exists>q. emitter sink_call a s = Inr q \<and> pending q = pending s \<and>
           applied (host q) = applied (host s) @ build_implementors a))"
  by (simp add: emitter_fun sink_call_def ready_def pending_def globals_sink_register
      host_sink_register applied_fold)

text \<open>
  Claim C5 for the shard of \<^verbatim>\<open>trait.Sync.js\<close> on a page whose Sink is initialized.
\<close>

theorem C5_ready_calls_entry_point_witness:
  "globals (sink_init JUndefined page0) ''register_implementors'' = JFun sink_entry \<and>
   trait_Sync sink_call (sink_init JUndefined page0) =
     sink_call sink_entry (JObj (build_implementors trait_Sync_assignments)) (sink_init JUndefined page0) \<and>
   ready (sink_init JUndefined page0) \<and>
   (\<exists>q. trait_Sync sink_call (sink_init JUndefined page0) = Inr q \<and>
        pending q = pending (sink_init JUndefined page0) \<and>
        applied (host q) = applied (host (sink_init JUndefined page0)) @ build_implementors trait_Sync_assignments)"
proof -
  have r: "globals (sink_init JUndefined page0) ''register_implementors'' = JFun sink_entry"
    by (simp add: globals_sink_init)
  then have r': "ready (sink_init JUndefined page0)"
    by (simp add: ready_def)
  from C5_ready_calls_entry_point
         [of "sink_init JUndefined page0" sink_entry sink_call trait_Sync_assignments
             "sink_init JUndefined page0"] r r'
  show ?thesis unfolding trait_Sync_def by metis
qed

subsection \<open>When a registration fails\<close>

text \<open>
  Claim C6, as stated, says that in every process-wide state the script of an emitter runs
  to completion, both branches of the dispatch being total. The branch of the call is not:
  with \<^verbatim>\<open>window.register_implementors\<close> set to \<^verbatim>\<open>true\<close> the script of
  \<^verbatim>\<open>trait.Sync.js\<close> takes that branch and the call raises \<^verbatim>\<open>TypeError\<close>; with a
  function there that throws, the exception leaves the script, which catches nothing.
\<close>

theorem C6_never_fails_counterexample:
  "trait_Sync sink_call (page0\<lparr>globals := (globals page0)(''register_implementors'' := JBool True)\<rparr>)
     = Inl TypeError \<and>
   trait_Sync throwing (page0\<lparr>globals := (globals page0)(''register_implementors'' := JFun sink_entry)\<rparr>)
     = Inl (Thrown (JObj (build_implementors trait_Sync_assignments)))"
  by (simp add: trait_Sync_def emitter_def dispatch_def throwing_def)

text \<open>
  Claim C6, amended: the script of an emitter runs to completion exactly when
  \<^verbatim>\<open>window.register_implementors\<close> is falsy, whatever the pending slot and the other
  bindings hold, or is a function whose call with the mapping returns. The script handles
  no error: a truthy value that is not a function raises \<^verbatim>\<open>TypeError\<close>, and what the
  called function throws is what the script throws.
\<close>

theorem C6_registration_outcome:
  "((\<exists>q. emitter call a p = Inr q) =
      (uninitialized p \<or>
       (\<exists>f q. globals p ''register_implementors'' = JFun f \<and>
              call f (JObj (build_implementors a)) p = Inr q))) \<and>
   (\<not> uninitialized p \<and> (\<forall>f. globals p ''register_implementors'' \<noteq> JFun f) \<longrightarrow>
      emitter call a p = Inl TypeError) \<and>
   (globals p ''register_implementors'' = JFun f \<and> call f (JObj (build_implementors a)) p = Inl e \<longrightarrow>
      emitter call a p = Inl e)"
proof (intro conjI)
  show "(\<exists>q. emitter call a p = Inr q) =
      (uninitialized p \<or>
       (\<exists>f q. globals p ''register_implementors'' = JFun f \<and>
              call f (JObj (build_implementors a)) p = Inr q))"
  proof (cases "uninitialized p")
    case True
    then show ?thesis by (simp add: emitter_uninitialized)
  next
    case False
    show ?thesis
    proof (cases "\<exists>f. globals p ''register_implementors'' = JFun f")
      case True
      then obtain f where "globals p ''register_implementors'' = JFun f" by blast
      with False show ?thesis by (simp add: emitter_fun)
    next
      case nf: False
      with False have "emitter call a p = Inl TypeError"
        by (simp add: uninitialized_def emitter_not_callable)
      with False nf show ?thesis by simp
    qed
  qed
next
  show "\<not> uninitialized p \<and> (\<forall>f. globals p ''register_implementors'' \<noteq> JFun f) \<longrightarrow>
      emitter call a p = Inl TypeError"
    by (simp add: uninitialized_def emitter_not_callable)
next
  show "globals p ''register_implementors'' = JFun f \<and> call f (JObj (build_implementors a)) p = Inl e \<longrightarrow>
      emitter call a p = Inl e"
    by (simp add: emitter_fun)
qed

text \<open>
  Claim C6 for the shard of \<^verbatim>\<open>trait.Sync.js\<close>: it completes on the fresh page, and on
  a page whose Sink is initialized, where the Sink's entry point returns.
\<close>

theorem C6_registration_outcome_witness:
  "uninitialized page0 \<and> (\<exists>q. trait_Sync sink_call page0 = Inr q) \<and>
   globals (sink_init JUndefined page0) ''register_implementors'' = JFun sink_entry \<and>
   (\<exists>q. trait_Sync sink_call (sink_init JUndefined page0) = Inr q)"
proof -
  have r: "globals (sink_init JUndefined page0) ''register_implementors'' = JFun sink_entry"
    by (simp add: globals_sink_init)
  have c: "sink_call sink_entry (JObj (build_implementors trait_Sync_assignments)) (sink_init JUndefined page0)
             = Inr (sink_register (JObj (build_implementors trait_Sync_assignments)) (sink_init JUndefined page0))"
    by (simp add: sink_call_def)
  from C6_registration_outcome [of sink_call trait_Sync_assignments page0]
       C6_registration_outcome [of sink_call trait_Sync_assignments "sink_init JUndefined page0"]
       uninitialized_page0 r c
  show ?thesis unfolding trait_Sync_def by blast
qed

subsection \<open>READY is permanent\<close>

text \<open>
  Claim C7: from a READY page, every session (registrations, and initializations run
  again) completes on a READY page; and a sequence of registrations leaves every binding of
  \<^verbatim>\<open>window\<close> as it was, the entry point and the pending slot among them, while the
  Sink applies the Fragments of every mapping in turn.
\<close>

theorem C7_ready_is_permanent:
  assumes "ready p"
  shows "(\<exists>q. run evs p = Inr q \<and> ready q) \<and>
         (\<exists>q. run (map Emit as) p = Inr q \<and> ready q \<and> globals q = globals p \<and>
              applied (host q) = applied (host p) @ concat (map build_implementors as))"
proof
  show "\<exists>q. run evs p = Inr q \<and> ready q"
    using assms by (rule run_ready)
next
  have "run (map Emit as) p =
          Inr (p\<lparr>host := fold sink_apply (concat (map build_implementors as)) (host p)\<rparr>)"
    by (simp only: run_Emit emitters_ready [OF assms])
  with assms
  show "\<exists>q. run (map Emit as) p = Inr q \<and> ready q \<and> globals q = globals p \<and>
            applied (host q) = applied (host p) @ concat (map build_implementors as)"
    by (simp add: ready_def applied_fold)
qed

text \<open>
  Claim C7 from the page on which the Sink has just been initialized.
\<close>

theorem C7_ready_is_permanent_witness:
  "ready (sink_init JUndefined page0) \<and>
   (\<exists>q. run [Emit trait_Sync_assignments, Init JUndefined, Emit [(''pkgA'', JArr [JStr ''implA1''])]]
           (sink_init JUndefined page0) = Inr q \<and> ready q) \<and>
   (\<exists>q. run [Emit trait_Sync_assignments, Emit [(''pkgA'', JArr [JStr ''implA1''])]]
           (sink_init JUndefined page0) = Inr q \<and> ready q \<and> pending q = pending (sink_init JUndefined page0))"
proof -
  have r: "ready (sink_init JUndefined page0)" by (rule ready_sink_init)
  from C7_ready_is_permanent
    [OF r, of "[Emit trait_Sync_assignments, Init JUndefined, Emit [(''pkgA'', JArr [JStr ''implA1''])]]"
       "[trait_Sync_assignments, [(''pkgA'', JArr [JStr ''implA1''])]]"] r
  show ?thesis by (auto simp: pending_def)
qed

subsection \<open>One entry per identifier\<close>

text \<open>
  Claim C8: let a shard register \<open>v1\<close> under the identifier \<open>k\<close> and a later shard
  register \<open>v2\<close> under \<open>k\<close>, anywhere in a session from the fresh page (\<open>s\<close> and
  \<open>t\<close> are the scripts run before and between them). Once both have been applied, that
  is after the later shard when the Sink has been initialized by then and after the
  initialization that follows it otherwise, the Registry has exactly one entry for \<open>k\<close>,
  and a query for \<open>k\<close> finds \<open>v2\<close>.
\<close>

theorem C8_last_write_wins:
  assumes "(k, v1) \<in> set (build_implementors a1)" and "(k, v2) \<in> set (build_implementors a2)"
  shows "\<exists>q. run (s @ Emit a1 # t @
                  Emit a2 # (if \<exists>e \<in> set (s @ t). is_Init e then [] else [Init JUndefined])) page0
               = Inr q \<and>
             query q k = Some v2 \<and>
             length (filter (\<lambda>kv. fst kv = k) (registry (host q))) = 1"
proof -
  let ?es = "s @ Emit a1 # t"
  let ?rest = "Emit a2 # (if \<exists>e \<in> set (s @ t). is_Init e then [] else [Init JUndefined])"
  have i: "(\<exists>e \<in> set ?es. is_Init e) = (\<exists>e \<in> set (s @ t). is_Init e)"
    by auto
  from run_state [OF uninitialized_page0, of ?es]
  obtain p where p: "run ?es page0 = Inr p"
    and st: "if \<exists>e \<in> set (s @ t). is_Init e then ready p else uninitialized p"
    and d: "distinct (map fst (registry (host p)))"
    unfolding i by (auto simp: registry_page0)
  have "\<exists>q. run ?rest p = Inr q \<and> host q = fold sink_apply (build_implementors a2) (host p)"
  proof (cases "\<exists>e \<in> set (s @ t). is_Init e")
    case True
    with st have "ready p" by simp
    then have "run [Emit a2] p = Inr (sink_register (JObj (build_implementors a2)) p)"
      by (simp add: emitter_ready ready_def)
    with True show ?thesis by (simp add: host_sink_register)
  next
    case False
    with st have "uninitialized p" by simp
    from session_shape [OF this, of "[a2]" "[]"] False show ?thesis by simp
  qed
  then obtain q where q: "run ?rest p = Inr q"
    and h: "host q = fold sink_apply (build_implementors a2) (host p)"
    by blast
  have 1: "run (?es @ ?rest) page0 = Inr q"
    using p q by (simp only: run_append sum.case)
  have 2: "query q k = Some v2"
    using query_after_fold [OF build_implementors_keys assms(2)] by (simp add: query_def h)
  have "distinct (map fst (registry (host q)))"
    using d by (simp add: h registry_fold_distinct)
  from one_entry [OF this] 2 have 3: "length (filter (\<lambda>kv. fst kv = k) (registry (host q))) = 1"
    by (simp add: query_def)
  from 1 2 3 show ?thesis by auto
qed

text \<open>
  Claim C8 for \<open>pkgA\<close> registered before the initialization and again after it.
\<close>

theorem C8_last_write_wins_witness:
  "(''pkgA'', JArr [JStr ''old'']) \<in> set (build_implementors [(''pkgA'', JArr [JStr ''old''])]) \<and>
   (''pkgA'', JArr [JStr ''new'']) \<in> set (build_implementors [(''pkgA'', JArr [JStr ''new''])]) \<and>
   (\<exists>q. run [Emit [(''pkgA'', JArr [JStr ''old''])], Init JUndefined, Emit [(''pkgA'', JArr [JStr ''new''])]]
           page0 = Inr q \<and>
        query q ''pkgA'' = Some (JArr [JStr ''new'']) \<and>
        length (filter (\<lambda>kv. fst kv = ''pkgA'') (registry (host q))) = 1)"
proof -
  have 1: "(''pkgA'', JArr [JStr ''old'']) \<in> set (build_implementors [(''pkgA'', JArr [JStr ''old''])])"
    by (simp add: build_implementors_def)
  have 2: "(''pkgA'', JArr [JStr ''new'']) \<in> set (build_implementors [(''pkgA'', JArr [JStr ''new''])])"
    by (simp add: build_implementors_def)
  from C8_last_write_wins [OF 1 2, of "[]" "[Init JUndefined]"] 1 2 show ?thesis
    by simp
qed

subsection \<open>Payloads are opaque\<close>

text \<open>
  Claim C9: let two shards make assignments that differ only in the contents of their
  strings. Then the mappings they build differ only so, and on any page both scripts take
  the same branch: both store their mapping in the pending slot and change nothing else,
  or both call the same function on the same page with their mapping, or both fail on a
  binding that cannot be called. With the Sink's entry point in place, both leave every
  binding of \<^verbatim>\<open>window\<close> as it was, and the Registries and logs of the two outcomes
  have the same shape.
\<close>

theorem C9_payload_independence:
  assumes "blank_obj a1 = blank_obj a2"
  shows "blank (JObj (build_implementors a1)) = blank (JObj (build_implementors a2)) \<and>
         (uninitialized p \<longrightarrow>
            emitter call a1 p =
              Inr (p\<lparr>globals := (globals p)(''pending_implementors'' := JObj (build_implementors a1))\<rparr>) \<and>
            emitter call a2 p =
              Inr (p\<lparr>globals := (globals p)(''pending_implementors'' := JObj (build_implementors a2))\<rparr>)) \<and>
         (globals p ''register_implementors'' = JFun f \<longrightarrow>
            emitter call a1 p = call f (JObj (build_implementors a1)) p \<and>
            emitter call a2 p = call f (JObj (build_implementors a2)) p) \<and>
         (\<not> uninitialized p \<and> (\<forall>g. globals p ''register_implementors'' \<noteq> JFun g) \<longrightarrow>
            emitter call a1 p = Inl TypeError \<and> emitter call a2 p = Inl TypeError) \<and>
         (ready s \<longrightarrow>
            (\<exists>q1 q2. emitter sink_call a1 s = Inr q1 \<and> emitter sink_call a2 s = Inr q2 \<and>
                     globals q1 = globals s \<and> globals q2 = globals s \<and>
                     blank_obj (registry (host q1)) = blank_obj (registry (host q2)) \<and>
                     blank_obj (applied (host q1)) = blank_obj (applied (host q2))))"
proof -
  have b: "blank_obj (build_implementors a1) = blank_obj (build_implementors a2)"
    using assms by (simp add: blank_obj_build)
  then have 1: "blank (JObj (build_implementors a1)) = blank (JObj (build_implementors a2))"
    by (simp only: blank_JObj)
  have 2: "uninitialized p \<longrightarrow>
            emitter call a1 p =
              Inr (p\<lparr>globals := (globals p)(''pending_implementors'' := JObj (build_implementors a1))\<rparr>) \<and>
            emitter call a2 p =
              Inr (p\<lparr>globals := (globals p)(''pending_implementors'' := JObj (build_implementors a2))\<rparr>)"
    by (simp add: emitter_uninitialized)
  have 3: "globals p ''register_implementors'' = JFun f \<longrightarrow>
            emitter call a1 p = call f (JObj (build_implementors a1)) p \<and>
            emitter call a2 p = call f (JObj (build_implementors a2)) p"
    by (simp add: emitter_fun)
  have 4: "\<not> uninitialized p \<and> (\<forall>g. globals p ''register_implementors'' \<noteq> JFun g) \<longrightarrow>
            emitter call a1 p = Inl TypeError \<and> emitter call a2 p = Inl TypeError"
    by (simp add: uninitialized_def emitter_not_callable)
  have 5: "ready s \<longrightarrow>
            (\<exists>q1 q2. emitter sink_call a1 s = Inr q1 \<and> emitter sink_call a2 s = Inr q2 \<and>
                     globals q1 = globals s \<and> globals q2 = globals s \<and>
                     blank_obj (registry (host q1)) = blank_obj (registry (host q2)) \<and>
                     blank_obj (applied (host q1)) = blank_obj (applied (host q2)))"
  proof
    assume "ready s"
    then have e: "emitter sink_call a s = Inr (sink_register (JObj (build_implementors a)) s)" for a
      by (simp add: ready_def emitter_ready)
    have "blank_obj (registry (host (sink_register (JObj (build_implementors a1)) s))) =
          blank_obj (registry (host (sink_register (JObj (build_implementors a2)) s)))"
      by (simp add: host_sink_register registry_fold blank_obj_fold b)
    moreover have "blank_obj (applied (host (sink_register (JObj (build_implementors a1)) s))) =
          blank_obj (applied (host (sink_register (JObj (build_implementors a2)) s)))"
      by (simp add: host_sink_register applied_fold blank_obj_append b)
    ultimately show "\<exists>q1 q2. emitter sink_call a1 s = Inr q1 \<and> emitter sink_call a2 s = Inr q2 \<and>
                     globals q1 = globals s \<and> globals q2 = globals s \<and>
                     blank_obj (registry (host q1)) = blank_obj (registry (host q2)) \<and>
                     blank_obj (applied (host q1)) = blank_obj (applied (host q2))"
      by (simp add: e globals_sink_register)
  qed
  from 1 2 3 4 5 show ?thesis by blast
qed

text \<open>
  Claim C9 for two shards registering \<open>spin\<close> with different descriptions, on the
  fresh page and on a page whose Sink is initialized.
\<close>

theorem C9_payload_independence_witness:
  "blank_obj [(''spin'', JArr [JStr ''impl Sync for Mutex'', JStr ''impl Sync for RwLock''])]
     = blank_obj [(''spin'', JArr [JStr ''x'', JStr ''''])] \<and>
   uninitialized page0 \<and>
   emitter sink_call [(''spin'', JArr [JStr ''impl Sync for Mutex'', JStr ''impl Sync for RwLock''])] page0 =
     Inr (page0\<lparr>globals := (globals page0)(''pending_implementors'' :=
            JObj [(''spin'', JArr [JStr ''impl Sync for Mutex'', JStr ''impl Sync for RwLock''])])\<rparr>) \<and>
   emitter sink_call [(''spin'', JArr [JStr ''x'', JStr ''''])] page0 =
     Inr (page0\<lparr>globals := (globals page0)(''pending_implementors'' :=
            JObj [(''spin'', JArr [JStr ''x'', JStr ''''])])\<rparr>) \<and>
   ready (sink_init JUndefined page0) \<and>
   (\<exists>q1 q2.
      emitter sink_call [(''spin'', JArr [JStr ''impl Sync for Mutex'', JStr ''impl Sync for RwLock''])]
        (sink_init JUndefined page0) = Inr q1 \<and>
      emitter sink_call [(''spin'', JArr [JStr ''x'', JStr ''''])] (sink_init JUndefined page0) = Inr q2 \<and>
      blank_obj (registry (host q1)) = blank_obj (registry (host q2)))"
proof -
  have h: "blank_obj [(''spin'', JArr [JStr ''impl Sync for Mutex'', JStr ''impl Sync for RwLock''])]
     = blank_obj [(''spin'', JArr [JStr ''x'', JStr ''''])]"
    by (simp add: blank_obj_def)
  have b: "build_implementors [(k, v)] = [(k, v)]" for k v
    by (simp add: build_implementors_def)
  have r: "ready (sink_init JUndefined page0)"
    by (rule ready_sink_init)
  from C9_payload_independence [OF h, of page0 sink_call _ "sink_init JUndefined page0"]
       h uninitialized_page0 r
  show ?thesis
    by (simp add: b) blast
qed

subsection \<open>Frame\<close>

text \<open>
  Claim C10: with the Sink's entry point in place, a registration leaves every binding of
  \<^verbatim>\<open>window\<close> as it was, the pending slot included; whatever function the entry point
  is, a binding \<open>k\<close> that the function leaves alone is left alone by the registration.
  With the entry point absent, a registration changes \<^verbatim>\<open>window.pending_implementors\<close>
  and nothing else, neither another binding nor the state of the host.
\<close>

theorem C10_frame:
  "(ready s \<longrightarrow> (\<exists>q. emitter sink_call a s = Inr q \<and> globals q = globals s)) \<and>
   (globals p ''register_implementors'' = JFun f \<longrightarrow>
      (\<forall>q'. call f (JObj (build_implementors a)) p = Inr q' \<longrightarrow> globals q' k = globals p k) \<longrightarrow>
      (\<forall>q. emitter call a p = Inr q \<longrightarrow> globals q k = globals p k)) \<and>
   (uninitialized p \<longrightarrow>
      (\<exists>q. emitter call a p = Inr q \<and> host q = host p \<and>
           (\<forall>k. k \<noteq> ''pending_implementors'' \<longrightarrow> globals q k = globals p k)))"
  by (simp add: emitter_uninitialized emitter_fun sink_call_def ready_def globals_sink_register)

text \<open>
  Claim C10 for the shard of \<^verbatim>\<open>trait.Sync.js\<close>, on a page whose Sink is initialized
  and on the fresh page.
\<close>

theorem C10_frame_witness:
  "ready (sink_init JUndefined page0) \<and>
   (\<exists>q. emitter sink_call trait_Sync_assignments (sink_init JUndefined page0) = Inr q \<and>
        globals q = globals (sink_init JUndefined page0)) \<and>
   uninitialized page0 \<and>
   (\<exists>q. emitter sink_call trait_Sync_assignments page0 = Inr q \<and> host q = host page0 \<and>
        globals q ''register_implementors'' = globals page0 ''register_implementors'')"
proof -
  have r: "ready (sink_init JUndefined page0)" by (rule ready_sink_init)
  have u: "uninitialized page0" by (rule uninitialized_page0)
  from C10_frame [of "sink_init JUndefined page0" trait_Sync_assignments page0 sink_entry sink_call
                     "''register_implementors''"] r u
  show ?thesis by auto
qed

end
